theory Spec2Isabelle
  imports
    Main
    "HOL-Library.Multiset"
    "HOL-Library.Sublist"
    "HOL-Library.List_Lexorder"
    "HOL-Library.Product_Lexorder"
begin

section \<open>JavaScript built-ins used by the contact application\<close>

text \<open>
  Strings are modelled as lists of characters over the ASCII range. The built-ins below
  follow ECMAScript on that range: \<open>trim\<close> strips the white space and line terminator
  characters (TAB, LF, VT, FF, CR, SPACE), \<open>toLowerCase\<close> maps \<open>A\<close>..\<open>Z\<close> to
  \<open>a\<close>..\<open>z\<close>, \<open>includes\<close> searches for a contiguous occurrence.
\<close>

definition isWhiteSpace :: "char \<Rightarrow> bool" where
  "isWhiteSpace c = (c \<in> set [CHR 0x09, CHR 0x0A, CHR 0x0B, CHR 0x0C, CHR 0x0D, CHR 0x20])"

definition trim :: "string \<Rightarrow> string" where
  "trim s = rev (dropWhile isWhiteSpace (rev (dropWhile isWhiteSpace s)))"

definition upperLetters :: string where
  "upperLetters = ''ABCDEFGHIJKLMNOPQRSTUVWXYZ''"

definition lowerLetters :: string where
  "lowerLetters = ''abcdefghijklmnopqrstuvwxyz''"

definition toLowerChar :: "char \<Rightarrow> char" where
  "toLowerChar c = (case map_of (zip upperLetters lowerLetters) c of Some d \<Rightarrow> d | None \<Rightarrow> c)"

definition toLowerCase :: "string \<Rightarrow> string" where
  "toLowerCase s = map toLowerChar s"

text \<open>\<open>s.startsWith(q)\<close> and \<open>s.includes(q)\<close>: the search tries every start position.\<close>

fun startsWith :: "string \<Rightarrow> string \<Rightarrow> bool" where
  "startsWith s [] = True"
| "startsWith [] (q # qs) = False"
| "startsWith (c # cs) (q # qs) = (c = q \<and> startsWith cs qs)"

fun str_includes :: "string \<Rightarrow> string \<Rightarrow> bool" where
  "str_includes [] q = (q = [])"
| "str_includes (c # cs) q = (startsWith (c # cs) q \<or> str_includes cs q)"

text \<open>
  \<open>a.localeCompare(b)\<close> with no options compares by the default collation at full
  strength. On printable ASCII the root collation orders white space, punctuation, symbols,
  digits and then letters; a letter has the same primary weight in both cases, and the
  case only decides between strings whose primary weights agree, lower case first.
  \<open>collationOrder\<close> lists the printable ASCII characters (letters in lower case) by primary
  weight. Characters outside printable ASCII are not modelled: they all get the weight
  that follows \<open>z\<close>. The result is negative, zero or positive as in JavaScript.
\<close>

definition collationOrder :: string where
  "collationOrder =
     '' _-,;:!?.'' @ [CHR 0x27, CHR 0x22] @ ''()[]{}@*/'' @ [CHR 0x5C] @ ''&#%'' @ [CHR 0x60]
     @ ''^+<=>|~$0123456789abcdefghijklmnopqrstuvwxyz''"

fun index_of :: "'a \<Rightarrow> 'a list \<Rightarrow> nat" where
  "index_of c [] = 0"
| "index_of c (x # xs) = (if c = x then 0 else Suc (index_of c xs))"

definition primaryWeight :: "char \<Rightarrow> nat" where
  "primaryWeight c = index_of (toLowerChar c) collationOrder"

definition tertiaryWeight :: "char \<Rightarrow> nat" where
  "tertiaryWeight c = (if c \<in> set upperLetters then 1 else 0)"

fun compareWeights :: "nat list \<Rightarrow> nat list \<Rightarrow> int" where
  "compareWeights [] [] = 0"
| "compareWeights [] (y # ys) = - 1"
| "compareWeights (x # xs) [] = 1"
| "compareWeights (x # xs) (y # ys) =
     (if x < y then - 1 else if y < x then 1 else compareWeights xs ys)"

definition localeCompare :: "string \<Rightarrow> string \<Rightarrow> int" where
  "localeCompare a b =
     (let p = compareWeights (map primaryWeight a) (map primaryWeight b)
      in if p \<noteq> 0 then p
         else compareWeights (map tertiaryWeight a) (map tertiaryWeight b))"

text \<open>
  The regular expression \<^verbatim>\<open>/\S+@\S+\.\S+/\<close> of the forms, tested anywhere in the string.
  \<open>afterAt\<close> matches \<^verbatim>\<open>\S+\.\S+\<close> at the start of its argument; \<open>emailPattern\<close> looks for
  a non-space character followed by \<open>@\<close> and such a rest.
\<close>

fun afterAt :: "string \<Rightarrow> bool" where
  "afterAt (c # d # e # rest) =
     (\<not> isWhiteSpace c \<and> ((d = CHR ''.'' \<and> \<not> isWhiteSpace e) \<or> afterAt (d # e # rest)))"
| "afterAt _ = False"

fun emailPattern :: "string \<Rightarrow> bool" where
  "emailPattern (c # d # rest) =
     ((\<not> isWhiteSpace c \<and> d = CHR ''@'' \<and> afterAt rest) \<or> emailPattern (d # rest))"
| "emailPattern _ = False"

text \<open>
  \<open>Array.prototype.sort(compareFn)\<close> is a stable sort: an element moves in front of another
  only when the comparator says so. It is modelled by a stable insertion sort.
\<close>

fun insertBy :: "('a \<Rightarrow> 'a \<Rightarrow> int) \<Rightarrow> 'a \<Rightarrow> 'a list \<Rightarrow> 'a list" where
  "insertBy cmp x [] = [x]"
| "insertBy cmp x (y # ys) = (if cmp x y \<le> 0 then x # y # ys else y # insertBy cmp x ys)"

fun sortBy :: "('a \<Rightarrow> 'a \<Rightarrow> int) \<Rightarrow> 'a list \<Rightarrow> 'a list" where
  "sortBy cmp [] = []"
| "sortBy cmp (x # xs) = insertBy cmp x (sortBy cmp xs)"

section \<open>Data model\<close>

text \<open>A contact as the forms build it; \<open>null\<close> is \<open>None\<close>. The field \<open>id\<close> is \<open>cid\<close>.\<close>

record contact =
  cid :: int
  name :: string
  email :: string
  phone :: string
  location :: "string option"
  address :: "string option"
  birthday :: "string option"
  isFavorite :: bool

text \<open>The text fields of AddContactForm and EditContactForm.\<close>

record formData =
  fd_name :: string
  fd_email :: string
  fd_phone :: string
  fd_location :: string
  fd_address :: string
  fd_birthday :: string

text \<open>The \<open>errors\<close> object of a form: a message per field, when present.\<close>

record formErrors =
  err_name :: "string option"
  err_email :: "string option"
  err_phone :: "string option"

record toastState =
  show_t :: bool
  message :: string
  type_t :: string

text \<open>
  The state of the \<open>App\<close> component. \<open>timers\<close> holds the pending \<open>setTimeout\<close> callbacks
  of \<open>showToast\<close>, oldest first, each by the toast type it closed over: all of them are
  scheduled with the same delay of 5000 ms, so they fire in the order they were scheduled.
  The state variable \<open>filteredContacts\<close> is not a field: the derivation effect recomputes
  it from \<open>contacts\<close> and \<open>searchQuery\<close> after every change, so it is the function
  \<open>getView\<close> below. The loading flag and the info dialog only drive the display and are
  left out.
\<close>

record appState =
  contacts :: "contact list"
  searchQuery :: string
  toast :: toastState
  deletedContact :: "contact option"
  showConfirmDialog :: bool
  contactToDelete :: "contact option"
  showAddForm :: bool
  showEditForm :: bool
  contactToEdit :: "contact option"
  timers :: "string list"

section \<open>The forms: validation and submission\<close>

text \<open>\<open>validateForm\<close> of both forms (the two copies differ in variable names only).\<close>

definition validateForm :: "formData \<Rightarrow> contact list \<Rightarrow> formErrors" where
  "validateForm fd existingContacts =
     \<lparr> err_name = (if trim (fd_name fd) = [] then Some ''Name is required'' else None),
       err_email =
         (if trim (fd_email fd) = [] then Some ''Email is required''
          else if \<not> emailPattern (fd_email fd) then Some ''Email is invalid''
          else None),
       err_phone =
         (if trim (fd_phone fd) = [] then Some ''Phone is required''
          else if list_ex (\<lambda>c. phone c = trim (fd_phone fd)) existingContacts
               then Some ''Phone number already exists''
          else None) \<rparr>"

definition noErrors :: "formErrors \<Rightarrow> bool" where
  "noErrors e = (err_name e = None \<and> err_email e = None \<and> err_phone e = None)"

text \<open>\<open>x || null\<close> on a string.\<close>

definition orNull :: "string \<Rightarrow> string option" where
  "orNull s = (if s = [] then None else Some s)"

text \<open>The object built by \<open>AddContactForm.handleSubmit\<close>; \<open>now\<close> is \<open>Date.now()\<close>.\<close>

definition newContact :: "int \<Rightarrow> formData \<Rightarrow> contact" where
  "newContact now fd =
     \<lparr> cid = now, name = trim (fd_name fd), email = trim (fd_email fd),
       phone = trim (fd_phone fd), location = orNull (trim (fd_location fd)),
       address = orNull (trim (fd_address fd)), birthday = orNull (fd_birthday fd),
       isFavorite = False \<rparr>"

text \<open>The object built by \<open>EditContactForm.handleSubmit\<close> from the contact being edited.\<close>

definition updatedContact :: "contact \<Rightarrow> formData \<Rightarrow> contact" where
  "updatedContact c fd =
     c\<lparr> name := trim (fd_name fd), email := trim (fd_email fd),
        phone := trim (fd_phone fd), location := orNull (trim (fd_location fd)),
        address := orNull (trim (fd_address fd)), birthday := orNull (fd_birthday fd) \<rparr>"

section \<open>The handlers of App\<close>

definition checkMark :: string where
  "checkMark = [CHR 0xE2, CHR 0x9C, CHR 0x93]"

definition emDash :: string where
  "emDash = [CHR 0xE2, CHR 0x80, CHR 0x94]"

definition showToast :: "string \<Rightarrow> string \<Rightarrow> appState \<Rightarrow> appState" where
  "showToast msg ty s =
     s\<lparr> toast := \<lparr> show_t = True, message = msg, type_t = ty \<rparr>,
        timers := timers s @ [ty] \<rparr>"

text \<open>The callback \<open>showToast\<close> hands to \<open>setTimeout\<close>, for a toast of type \<open>ty\<close>.\<close>

definition toastTimeout :: "string \<Rightarrow> appState \<Rightarrow> appState" where
  "toastTimeout ty s =
     s\<lparr> toast := \<lparr> show_t = False, message = [], type_t = ''success'' \<rparr>,
        deletedContact := (if ty = ''delete'' then None else deletedContact s) \<rparr>"

text \<open>The oldest pending timer fires.\<close>

definition fireTimer :: "appState \<Rightarrow> appState" where
  "fireTimer s =
     (case timers s of [] \<Rightarrow> s | ty # rest \<Rightarrow> toastTimeout ty (s\<lparr> timers := rest \<rparr>))"

text \<open>The \<open>n\<close> oldest pending timers fire, one after the other.\<close>

fun fireTimers :: "nat \<Rightarrow> appState \<Rightarrow> appState" where
  "fireTimers 0 s = s"
| "fireTimers (Suc n) s = fireTimers n (fireTimer s)"

text \<open>The seed contacts as the mount effect stores them.\<close>

definition initApp :: "contact list \<Rightarrow> appState" where
  "initApp contactsData =
     \<lparr> contacts = map (\<lambda>c. c\<lparr> isFavorite := False \<rparr>) contactsData,
       searchQuery = [],
       toast = \<lparr> show_t = False, message = [], type_t = ''success'' \<rparr>,
       deletedContact = None,
       showConfirmDialog = False,
       contactToDelete = None,
       showAddForm = False,
       showEditForm = False,
       contactToEdit = None,
       timers = [] \<rparr>"

definition compareContacts :: "contact \<Rightarrow> contact \<Rightarrow> int" where
  "compareContacts a b =
     (if isFavorite a \<and> \<not> isFavorite b then - 1
      else if \<not> isFavorite a \<and> isFavorite b then 1
      else localeCompare (name a) (name b))"

text \<open>The filter of the derivation effect, before sorting.\<close>

definition filterContacts :: "contact list \<Rightarrow> string \<Rightarrow> contact list" where
  "filterContacts cs q =
     (if trim q = [] then cs
      else filter (\<lambda>c. str_includes (toLowerCase (name c)) (toLowerCase q)) cs)"

text \<open>The value the derivation effect stores in \<open>filteredContacts\<close>.\<close>

definition derive :: "contact list \<Rightarrow> string \<Rightarrow> contact list" where
  "derive cs q = sortBy compareContacts (filterContacts cs q)"

definition getView :: "appState \<Rightarrow> contact list" where
  "getView s = derive (contacts s) (searchQuery s)"

definition handleSearchChange :: "string \<Rightarrow> appState \<Rightarrow> appState" where
  "handleSearchChange query s = s\<lparr> searchQuery := query \<rparr>"

definition handleAddContact :: "contact \<Rightarrow> appState \<Rightarrow> appState" where
  "handleAddContact c s =
     showToast (checkMark @ '' '' @ name c @ '' added successfully!'') ''success''
       (s\<lparr> contacts := c\<lparr> isFavorite := False \<rparr> # contacts s \<rparr>)"

definition handleToggleFavorite :: "int \<Rightarrow> appState \<Rightarrow> appState" where
  "handleToggleFavorite contactId s =
     (let s' = s\<lparr> contacts :=
                  map (\<lambda>c. if cid c = contactId then c\<lparr> isFavorite := \<not> isFavorite c \<rparr> else c)
                    (contacts s) \<rparr>
      in case find (\<lambda>c. cid c = contactId) (contacts s) of
           None \<Rightarrow> s'
         | Some c \<Rightarrow>
             showToast
               (name c @ '' '' @ (if isFavorite c then ''removed from'' else ''added to'')
                  @ '' favorites'')
               ''success'' s')"

definition handleDeleteContact :: "int \<Rightarrow> appState \<Rightarrow> appState" where
  "handleDeleteContact contactId s =
     (case find (\<lambda>c. cid c = contactId) (contacts s) of
        None \<Rightarrow> s
      | Some c \<Rightarrow> s\<lparr> contactToDelete := Some c, showConfirmDialog := True \<rparr>)"

definition handleConfirmDelete :: "appState \<Rightarrow> appState" where
  "handleConfirmDelete s =
     (case contactToDelete s of
        None \<Rightarrow> s
      | Some d \<Rightarrow>
          (showToast (name d @ '' deleted '' @ emDash @ '' Undo?'') ''delete''
             (s\<lparr> deletedContact := Some d,
                 contacts := filter (\<lambda>c. cid c \<noteq> cid d) (contacts s) \<rparr>))
          \<lparr> showConfirmDialog := False, contactToDelete := None \<rparr>)"

definition handleCancelDelete :: "appState \<Rightarrow> appState" where
  "handleCancelDelete s = s\<lparr> showConfirmDialog := False, contactToDelete := None \<rparr>"

definition handleShowAddForm :: "appState \<Rightarrow> appState" where
  "handleShowAddForm s = s\<lparr> showAddForm := True \<rparr>"

definition handleCloseAddForm :: "appState \<Rightarrow> appState" where
  "handleCloseAddForm s = s\<lparr> showAddForm := False \<rparr>"

definition handleShowEditForm :: "int \<Rightarrow> appState \<Rightarrow> appState" where
  "handleShowEditForm contactId s =
     (case find (\<lambda>c. cid c = contactId) (contacts s) of
        None \<Rightarrow> s
      | Some c \<Rightarrow> s\<lparr> contactToEdit := Some c, showEditForm := True \<rparr>)"

definition handleCloseEditForm :: "appState \<Rightarrow> appState" where
  "handleCloseEditForm s = s\<lparr> showEditForm := False, contactToEdit := None \<rparr>"

definition handleUpdateContact :: "contact \<Rightarrow> appState \<Rightarrow> appState" where
  "handleUpdateContact u s =
     handleCloseEditForm
       (showToast (checkMark @ '' '' @ name u @ '' updated successfully!'') ''success''
          (s\<lparr> contacts := map (\<lambda>c. if cid c = cid u then u else c) (contacts s) \<rparr>))"

definition handleUndoDelete :: "appState \<Rightarrow> appState" where
  "handleUndoDelete s =
     (case deletedContact s of
        None \<Rightarrow> s
      | Some d \<Rightarrow>
          (showToast (name d @ '' restored!'') ''success''
             (s\<lparr> contacts := contacts s @ [d] \<rparr>))
          \<lparr> deletedContact := None \<rparr>)"

section \<open>User actions\<close>

text \<open>
  Submitting the add form: \<open>AddContactForm.handleSubmit\<close> validates against
  \<open>existingContacts = contacts\<close>, and on success calls \<open>onAddContact\<close> and \<open>onClose\<close>.
  A rejected submission changes nothing in \<open>App\<close>.
\<close>

definition addSubmit :: "int \<Rightarrow> formData \<Rightarrow> appState \<Rightarrow> appState" where
  "addSubmit now fd s =
     (if noErrors (validateForm fd (contacts s))
      then handleCloseAddForm (handleAddContact (newContact now fd) s)
      else s)"

text \<open>
  Submitting the edit form, which is rendered only while \<open>showEditForm\<close> holds and
  \<open>contactToEdit\<close> is set, with
  \<open>existingContacts = contacts.filter(c => c.id !== contactToEdit.id)\<close>.
\<close>

definition editSubmit :: "formData \<Rightarrow> appState \<Rightarrow> appState" where
  "editSubmit fd s =
     (case contactToEdit s of
        None \<Rightarrow> s
      | Some c \<Rightarrow>
          if showEditForm s \<and>
             noErrors (validateForm fd (filter (\<lambda>x. cid x \<noteq> cid c) (contacts s)))
          then handleUpdateContact (updatedContact c fd) s
          else s)"

text \<open>
  The UNDO button is rendered only inside a visible toast of type \<open>delete\<close> and while
  \<open>deletedContact\<close> is set; a click runs \<open>handleUndoDelete\<close>.
\<close>

definition undoAvailable :: "appState \<Rightarrow> bool" where
  "undoAvailable s =
     (show_t (toast s) \<and> type_t (toast s) = ''delete'' \<and> deletedContact s \<noteq> None)"

definition undoClick :: "appState \<Rightarrow> appState" where
  "undoClick s = (if undoAvailable s then handleUndoDelete s else s)"

text \<open>
  The dialogs are modal, so a dialog is opened and answered with no other handler of the
  collection in between: an addition opens the add form and submits it, an update opens
  the edit form of a contact and submits it, a deletion opens the confirmation dialog and
  confirms it.
\<close>

definition addContact :: "int \<Rightarrow> formData \<Rightarrow> appState \<Rightarrow> appState" where
  "addContact now fd s = addSubmit now fd (handleShowAddForm s)"

definition updateContact :: "int \<Rightarrow> formData \<Rightarrow> appState \<Rightarrow> appState" where
  "updateContact contactId fd s = editSubmit fd (handleShowEditForm contactId s)"

definition requestDelete :: "int \<Rightarrow> appState \<Rightarrow> appState" where
  "requestDelete contactId s = handleConfirmDelete (handleDeleteContact contactId s)"

section \<open>Derived notions used by the properties\<close>

text \<open>
  The comparator of the derivation effect orders contacts like the following key: favorites
  first, then the primary weights of the name, then its case.
\<close>

definition sortKey :: "contact \<Rightarrow> bool \<times> nat list \<times> nat list" where
  "sortKey c = (\<not> isFavorite c, map primaryWeight (name c), map tertiaryWeight (name c))"

text \<open>
  The ordering as the specification words it: a stable sort by favorite flag (favorites
  first) and then by the name compared without regard to case, so that names equal up to
  case are ties and keep their prior order.
\<close>

definition specSortKey :: "contact \<Rightarrow> bool \<times> nat list" where
  "specSortKey c = (\<not> isFavorite c, map primaryWeight (toLowerCase (name c)))"

definition specDerive :: "contact list \<Rightarrow> string \<Rightarrow> contact list" where
  "specDerive cs q = sort_key specSortKey (filterContacts cs q)"

text \<open>
  Validation as the application calls it: the add form passes the whole collection, the
  edit form passes the collection without the contacts that have the id of the contact
  being edited.
\<close>

definition validateAgainst :: "formData \<Rightarrow> contact list \<Rightarrow> int option \<Rightarrow> formErrors" where
  "validateAgainst fd active excludeId =
     validateForm fd
       (case excludeId of None \<Rightarrow> active | Some i \<Rightarrow> filter (\<lambda>c. cid c \<noteq> i) active)"

definition duplicatePhone :: "formErrors \<Rightarrow> bool" where
  "duplicatePhone e = (err_phone e = Some ''Phone number already exists'')"

text \<open>A series of submissions of the add form, each with the clock reading at its time.\<close>

fun addAll :: "(int \<times> formData) list \<Rightarrow> appState \<Rightarrow> appState" where
  "addAll [] s = s"
| "addAll ((now, fd) # rest) s = addAll rest (addContact now fd s)"

text \<open>The ids of the records that such a series adds, in the order of their creation.\<close>

fun issuedIds :: "(int \<times> formData) list \<Rightarrow> appState \<Rightarrow> int list" where
  "issuedIds [] s = []"
| "issuedIds ((now, fd) # rest) s =
     (if noErrors (validateForm fd (contacts s)) then [cid (newContact now fd)] else [])
       @ issuedIds rest (addContact now fd s)"

text \<open>The events of a session, and a session as a run of events from a state.\<close>

datatype event =
    Add int formData
  | Update int formData
  | Delete int
  | Undo
  | ToggleFavorite int
  | Search string
  | TimerExpires

fun step :: "event \<Rightarrow> appState \<Rightarrow> appState" where
  "step (Add now fd) s = addContact now fd s"
| "step (Update contactId fd) s = updateContact contactId fd s"
| "step (Delete contactId) s = requestDelete contactId s"
| "step Undo s = undoClick s"
| "step (ToggleFavorite contactId) s = handleToggleFavorite contactId s"
| "step (Search query) s = handleSearchChange query s"
| "step TimerExpires s = fireTimer s"

fun run :: "event list \<Rightarrow> appState \<Rightarrow> appState" where
  "run [] s = s"
| "run (e # es) s = run es (step e s)"

text \<open>The clock readings of the additions of a session.\<close>

fun addTimes :: "event list \<Rightarrow> int list" where
  "addTimes [] = []"
| "addTimes (Add now fd # es) = now # addTimes es"
| "addTimes (e # es) = addTimes es"

text \<open>No two contacts of a collection have equal trimmed phone values.\<close>

definition phonesDistinct :: "contact list \<Rightarrow> bool" where
  "phonesDistinct cs = distinct (map (\<lambda>c. trim (phone c)) cs)"

text \<open>
  The invariant of a session whose ids so far are in \<open>used\<close>: ids and stored phones of the
  active collection are pairwise distinct, stored phones are trimmed, no confirmation
  dialog is open, and a record that the UNDO button would restore clashes with no active
  contact.
\<close>

definition sessionInv :: "int set \<Rightarrow> appState \<Rightarrow> bool" where
  "sessionInv used s =
     (distinct (map cid (contacts s)) \<and>
      cid ` set (contacts s) \<subseteq> used \<and>
      list_all (\<lambda>c. trim (phone c) = phone c) (contacts s) \<and>
      distinct (map phone (contacts s)) \<and>
      contactToDelete s = None \<and>
      (case deletedContact s of
         None \<Rightarrow> True
       | Some d \<Rightarrow>
           \<not> (show_t (toast s) \<and> type_t (toast s) = ''delete'') \<or>
           (cid d \<in> used \<and> cid d \<notin> cid ` set (contacts s) \<and>
            trim (phone d) = phone d \<and> phone d \<notin> phone ` set (contacts s))))"

section \<open>Example data\<close>

text \<open>The two contacts of the specification's scenarios, and forms filled in for others.\<close>

definition exampleBob :: contact where
  "exampleBob =
     \<lparr> cid = 1, name = ''Bob'', email = ''bob@example.com'', phone = ''555-0100'',
       location = None, address = None, birthday = None, isFavorite = False \<rparr>"

definition exampleAmy :: contact where
  "exampleAmy =
     \<lparr> cid = 2, name = ''Amy'', email = ''amy@example.com'', phone = ''555-0101'',
       location = Some ''Paris'', address = None, birthday = None, isFavorite = False \<rparr>"

definition exampleForm :: formData where
  "exampleForm =
     \<lparr> fd_name = ''Cleo'', fd_email = ''cleo@example.com'', fd_phone = '' 555-0102 '',
       fd_location = [], fd_address = [], fd_birthday = [] \<rparr>"

definition exampleForm2 :: formData where
  "exampleForm2 =
     \<lparr> fd_name = ''Dan'', fd_email = ''dan@example.com'', fd_phone = ''555-0103'',
       fd_location = ''Oslo'', fd_address = [], fd_birthday = ''1990-01-15'' \<rparr>"

text \<open>A seed record whose phone is stored with a trailing space, and a form with the same
  phone number typed without it.\<close>

definition paddedSeed :: contact where
  "paddedSeed =
     \<lparr> cid = 3, name = ''Eve'', email = ''eve@example.com'', phone = ''555-0100 '',
       location = None, address = None, birthday = None, isFavorite = False \<rparr>"

definition clashForm :: formData where
  "clashForm =
     \<lparr> fd_name = ''Finn'', fd_email = ''finn@example.com'', fd_phone = ''555-0100'',
       fd_location = [], fd_address = [], fd_birthday = [] \<rparr>"

text \<open>Two contacts whose names differ in case only.\<close>

definition upperAmy :: contact where
  "upperAmy =
     \<lparr> cid = 4, name = ''Amy'', email = ''amy@example.com'', phone = ''555-0104'',
       location = None, address = None, birthday = None, isFavorite = False \<rparr>"

definition lowerAmy :: contact where
  "lowerAmy =
     \<lparr> cid = 5, name = ''amy'', email = ''amy2@example.com'', phone = ''555-0105'',
       location = None, address = None, birthday = None, isFavorite = False \<rparr>"

text \<open>
  A state in which two active contacts share an id: two additions submitted at the same
  clock reading.
\<close>

definition repeatedIdState :: appState where
  "repeatedIdState = addAll [(1000, exampleForm), (1000, exampleForm2)] (initApp [exampleAmy])"

section \<open>Lookup and removal by id\<close>

lemma filter_by_cid:
  "distinct (map cid cs) \<Longrightarrow> c \<in> set cs \<Longrightarrow>
     filter (\<lambda>x. cid x \<noteq> cid c) cs = remove1 c cs"
proof (induction cs)
  case Nil
  then show ?case by simp
next
  case (Cons x cs)
  show ?case
  proof (cases "x = c")
    case True
    have "\<forall>y \<in> set cs. cid y \<noteq> cid c"
      using Cons.prems True by (auto simp: image_iff)
    then have "filter (\<lambda>x. cid x \<noteq> cid c) cs = cs"
      by (simp add: filter_id_conv)
    then show ?thesis using True by simp
  next
    case False
    then have in_tail: "c \<in> set cs" using Cons.prems by simp
    then have "cid x \<noteq> cid c" using Cons.prems by (auto simp: image_iff)
    then show ?thesis using Cons in_tail False by simp
  qed
qed

section \<open>Deleting and undoing\<close>

text \<open>
  Claim C8. While a deletion is pending, confirming the deletion of a second contact
  replaces the pending record: the slot then holds the second record only, the undo that
  follows appends the second record to the active collection and empties the slot, and a
  further undo does nothing, so the first record never comes back.
\<close>

theorem second_delete_discards_first:
  assumes "deletedContact s = Some a"
    and "find (\<lambda>c. cid c = i) (contacts s) = Some b"
  shows "deletedContact (requestDelete i s) = Some b \<and>
         contacts (requestDelete i s) = filter (\<lambda>c. cid c \<noteq> cid b) (contacts s) \<and>
         contacts (handleUndoDelete (requestDelete i s)) =
           filter (\<lambda>c. cid c \<noteq> cid b) (contacts s) @ [b] \<and>
         deletedContact (handleUndoDelete (requestDelete i s)) = None \<and>
         handleUndoDelete (handleUndoDelete (requestDelete i s)) =
           handleUndoDelete (requestDelete i s)"
  using assms
  by (simp add: requestDelete_def handleDeleteContact_def handleConfirmDelete_def
      handleUndoDelete_def showToast_def)

theorem second_delete_discards_first_witness:
  "deletedContact (requestDelete 1 (initApp [exampleBob, exampleAmy])) = Some exampleBob \<and>
   deletedContact (requestDelete 2 (requestDelete 1 (initApp [exampleBob, exampleAmy])))
     = Some exampleAmy \<and>
   contacts (handleUndoDelete
     (requestDelete 2 (requestDelete 1 (initApp [exampleBob, exampleAmy])))) = [exampleAmy]"
  using second_delete_discards_first
    [of "requestDelete 1 (initApp [exampleBob, exampleAmy])" exampleBob 2 exampleAmy]
  by (simp add: requestDelete_def handleDeleteContact_def handleConfirmDelete_def
      showToast_def initApp_def exampleBob_def exampleAmy_def)

text \<open>Timer expiries change neither the active collection nor, unless a delete timer is
  among them, the pending slot.\<close>

lemma fireTimer_frame:
  "contacts (fireTimer s) = contacts s \<and> timers (fireTimer s) = drop 1 (timers s)"
  by (simp add: fireTimer_def toastTimeout_def drop_Suc split: list.splits)

lemma fireTimers_frame:
  "contacts (fireTimers n s) = contacts s \<and> timers (fireTimers n s) = drop n (timers s)"
proof (induction n arbitrary: s)
  case 0
  then show ?case by simp
next
  case (Suc n)
  show ?case using Suc [of "fireTimer s"] fireTimer_frame [of s] by (simp add: drop_Suc tl_drop)
qed

lemma fireTimers_Suc: "fireTimers (Suc n) s = fireTimer (fireTimers n s)"
  by (induction n arbitrary: s) simp_all

lemma fireTimers_keep_pending:
  assumes "n \<le> length (timers s)" and "''delete'' \<notin> set (take n (timers s))"
  shows "deletedContact (fireTimers n s) = deletedContact s"
  using assms
proof (induction n arbitrary: s)
  case 0
  then show ?case by simp
next
  case (Suc n)
  then obtain ty rest where ts: "timers s = ty # rest"
    by (cases "timers s") auto
  then have ty: "ty \<noteq> ''delete''" and "n \<le> length rest" and "''delete'' \<notin> set (take n rest)"
    using Suc.prems by auto
  moreover have "timers (fireTimer s) = rest" and "deletedContact (fireTimer s) = deletedContact s"
    using ts ty by (simp_all add: fireTimer_def toastTimeout_def)
  ultimately show ?case using Suc.IH [of "fireTimer s"] by simp
qed

lemma fireTimers_own_expiry:
  assumes "timers s = ts @ [''delete'']"
  shows "deletedContact (fireTimers (Suc (length ts)) s) = None"
proof -
  have "timers (fireTimers (length ts) s) = [''delete'']"
    using fireTimers_frame [of "length ts" s] assms by simp
  then show ?thesis
    unfolding fireTimers_Suc by (simp add: fireTimer_def toastTimeout_def)
qed

text \<open>
  Counterexample to claim C9 as stated. When two active contacts share an id, deleting by
  that id removes both, the pending slot keeps only the first, and the undo offered by the
  notification restores only that one: the other record is lost and the result is not a
  permutation of the original collection.
\<close>

theorem delete_undo_drops_same_id:
  "map cid (contacts repeatedIdState) = [1000, 1000, 2] \<and>
   map name (contacts repeatedIdState) = [''Dan'', ''Cleo'', ''Amy''] \<and>
   undoAvailable (requestDelete 1000 repeatedIdState) \<and>
   map name (contacts (undoClick (requestDelete 1000 repeatedIdState))) = [''Amy'', ''Dan''] \<and>
   mset (contacts (undoClick (requestDelete 1000 repeatedIdState)))
     \<noteq> mset (contacts repeatedIdState)"
proof -
  have a: "map cid (contacts repeatedIdState) = [1000, 1000, 2]"
    "map name (contacts repeatedIdState) = [''Dan'', ''Cleo'', ''Amy'']"
    by (simp_all add: repeatedIdState_def addContact_def addSubmit_def handleShowAddForm_def
      handleCloseAddForm_def handleAddContact_def showToast_def newContact_def
      validateForm_def noErrors_def initApp_def exampleAmy_def
      exampleForm_def exampleForm2_def trim_def isWhiteSpace_def)
  have b: "undoAvailable (requestDelete 1000 repeatedIdState)"
    "map name (contacts (undoClick (requestDelete 1000 repeatedIdState))) = [''Amy'', ''Dan'']"
    by (simp_all add: repeatedIdState_def addContact_def addSubmit_def handleShowAddForm_def
      handleCloseAddForm_def handleAddContact_def showToast_def newContact_def
      requestDelete_def handleDeleteContact_def handleConfirmDelete_def
      undoClick_def undoAvailable_def handleUndoDelete_def
      validateForm_def noErrors_def initApp_def exampleAmy_def
      exampleForm_def exampleForm2_def trim_def isWhiteSpace_def)
  have "length (map name (contacts (undoClick (requestDelete 1000 repeatedIdState))))
          \<noteq> length (map name (contacts repeatedIdState))"
    unfolding a b by simp
  then have "length (contacts (undoClick (requestDelete 1000 repeatedIdState)))
          \<noteq> length (contacts repeatedIdState)"
    by simp
  then have c: "mset (contacts (undoClick (requestDelete 1000 repeatedIdState)))
     \<noteq> mset (contacts repeatedIdState)"
    using mset_eq_length by blast
  from a b c show ?thesis by blast
qed

text \<open>
  Claim C9, amended. Deleting selects the first active contact with the given id, puts
  exactly that record (every field of it) into the pending slot and removes every active
  record with that id; the notification then offers UNDO. Undo appends the pending record
  at the end of the active collection and empties the slot, at once or after expiries of
  earlier timers as long as no delete timer is among them. When the ids of the active
  collection are pairwise distinct the result is the original collection with the record
  moved to the end, a permutation of the original. Once the timer of the deletion itself
  has expired, undo restores nothing.
\<close>

theorem delete_then_undo_restores_selected:
  assumes "find (\<lambda>x. cid x = i) (contacts s) = Some c"
  shows "deletedContact (requestDelete i s) = Some c \<and>
         contacts (requestDelete i s) = filter (\<lambda>x. cid x \<noteq> i) (contacts s) \<and>
         undoAvailable (requestDelete i s) \<and>
         contacts (handleUndoDelete (requestDelete i s))
           = filter (\<lambda>x. cid x \<noteq> i) (contacts s) @ [c] \<and>
         deletedContact (handleUndoDelete (requestDelete i s)) = None \<and>
         (distinct (map cid (contacts s)) \<longrightarrow>
            contacts (handleUndoDelete (requestDelete i s)) = remove1 c (contacts s) @ [c] \<and>
            mset (contacts (handleUndoDelete (requestDelete i s))) = mset (contacts s)) \<and>
         (n \<le> length (timers s) \<and> ''delete'' \<notin> set (take n (timers s)) \<longrightarrow>
            contacts (handleUndoDelete (fireTimers n (requestDelete i s)))
              = filter (\<lambda>x. cid x \<noteq> i) (contacts s) @ [c]) \<and>
         handleUndoDelete (fireTimers (Suc (length (timers s))) (requestDelete i s))
           = fireTimers (Suc (length (timers s))) (requestDelete i s)"
proof -
  let ?d = "requestDelete i s"
  have c: "c \<in> set (contacts s)" "cid c = i"
    using assms by (auto simp: find_Some_iff)
  have basic: "deletedContact ?d = Some c"
    "contacts ?d = filter (\<lambda>x. cid x \<noteq> i) (contacts s)"
    "timers ?d = timers s @ [''delete'']"
    "undoAvailable ?d"
    using assms c(2)
    by (simp_all add: requestDelete_def handleDeleteContact_def handleConfirmDelete_def
        showToast_def undoAvailable_def)
  have undo: "contacts (handleUndoDelete t) = contacts t @ [c] \<and>
              deletedContact (handleUndoDelete t) = None"
    if "deletedContact t = Some c" for t
    using that by (simp add: handleUndoDelete_def showToast_def)
  have now: "contacts (handleUndoDelete ?d) = filter (\<lambda>x. cid x \<noteq> i) (contacts s) @ [c]"
    "deletedContact (handleUndoDelete ?d) = None"
    using undo [OF basic(1)] basic(2) by simp_all
  have uniq: "contacts (handleUndoDelete ?d) = remove1 c (contacts s) @ [c] \<and>
        mset (contacts (handleUndoDelete ?d)) = mset (contacts s)"
    if "distinct (map cid (contacts s))"
    using filter_by_cid [OF that c(1)] c now(1) by simp
  have window: "contacts (handleUndoDelete (fireTimers n ?d))
                  = filter (\<lambda>x. cid x \<noteq> i) (contacts s) @ [c]"
    if "n \<le> length (timers s)" and "''delete'' \<notin> set (take n (timers s))"
  proof -
    have "n \<le> length (timers ?d)" and "''delete'' \<notin> set (take n (timers ?d))"
      using that by (simp_all add: basic(3))
    then have "deletedContact (fireTimers n ?d) = Some c"
      using fireTimers_keep_pending [of n ?d] basic(1) by simp
    then show ?thesis
      using undo [of "fireTimers n ?d"] fireTimers_frame [of n ?d] basic(2) by simp
  qed
  have "deletedContact (fireTimers (Suc (length (timers s))) ?d) = None"
    using basic(3) by (rule fireTimers_own_expiry)
  then have after: "handleUndoDelete (fireTimers (Suc (length (timers s))) ?d)
               = fireTimers (Suc (length (timers s))) ?d"
    by (simp add: handleUndoDelete_def)
  from basic(1,2,4) now uniq window after show ?thesis by blast
qed

theorem delete_then_undo_restores_selected_witness:
  "contacts (handleUndoDelete (requestDelete 1 (initApp [exampleBob, exampleAmy])))
     = [exampleAmy, exampleBob] \<and>
   mset (contacts (handleUndoDelete (requestDelete 1 (initApp [exampleBob, exampleAmy]))))
     = mset (contacts (initApp [exampleBob, exampleAmy])) \<and>
   deletedContact (requestDelete 1 (initApp [exampleBob, exampleAmy])) = Some exampleBob \<and>
   handleUndoDelete (fireTimers (Suc 0) (requestDelete 1 (initApp [exampleBob, exampleAmy])))
     = fireTimers (Suc 0) (requestDelete 1 (initApp [exampleBob, exampleAmy]))"
proof -
  let ?s0 = "initApp [exampleBob, exampleAmy]"
  have cs: "contacts ?s0 = [exampleBob, exampleAmy]" and ts: "timers ?s0 = []"
    by (simp_all add: initApp_def exampleBob_def exampleAmy_def)
  have found: "find (\<lambda>x. cid x = 1) (contacts ?s0) = Some exampleBob"
    by (simp add: cs) (simp add: exampleBob_def)
  have ids: "distinct (map cid (contacts ?s0))"
    by (simp add: cs) (simp add: exampleBob_def exampleAmy_def)
  have win: "0 \<le> length (timers ?s0) \<and> ''delete'' \<notin> set (take 0 (timers ?s0))"
    by simp
  note inst = delete_then_undo_restores_selected [OF found, of 0]
  have a: "contacts (handleUndoDelete (requestDelete 1 ?s0)) = remove1 exampleBob (contacts ?s0) @ [exampleBob]"
    and b: "mset (contacts (handleUndoDelete (requestDelete 1 ?s0))) = mset (contacts ?s0)"
    using inst ids by blast+
  have c: "deletedContact (requestDelete 1 ?s0) = Some exampleBob"
    using inst by blast
  have "handleUndoDelete (fireTimers (Suc (length (timers ?s0))) (requestDelete 1 ?s0))
          = fireTimers (Suc (length (timers ?s0))) (requestDelete 1 ?s0)"
    using inst by blast
  then have d: "handleUndoDelete (fireTimers (Suc 0) (requestDelete 1 ?s0))
                  = fireTimers (Suc 0) (requestDelete 1 ?s0)"
    by (simp only: ts list.size)
  have "contacts (handleUndoDelete (requestDelete 1 ?s0)) = [exampleAmy, exampleBob]"
    using a by (simp add: cs)
  with b c d show ?thesis by blast
qed

section \<open>Toggling the favorite flag\<close>

text \<open>
  Claim C10. Toggling the favorite flag of an id keeps the length and the order of the
  stored collection, flips \<open>isFavorite\<close> of the contacts with that id and changes no other
  field and no other contact; when no contact has the id, the whole state is unchanged.
\<close>

theorem toggleFavorite_frame:
  "length (contacts (handleToggleFavorite i s)) = length (contacts s) \<and>
   (\<forall>k < length (contacts s).
      contacts (handleToggleFavorite i s) ! k =
        (if cid (contacts s ! k) = i
         then (contacts s ! k)\<lparr> isFavorite := \<not> isFavorite (contacts s ! k) \<rparr>
         else contacts s ! k)) \<and>
   ((\<forall>c \<in> set (contacts s). cid c \<noteq> i) \<longrightarrow> handleToggleFavorite i s = s)"
proof -
  have "find (\<lambda>c. cid c = i) (contacts s) = None"
    if "\<forall>c \<in> set (contacts s). cid c \<noteq> i"
    using that by (simp add: find_None_iff)
  moreover have
    "map (\<lambda>c. if cid c = i then c\<lparr> isFavorite := \<not> isFavorite c \<rparr> else c) (contacts s)
       = contacts s"
    if "\<forall>c \<in> set (contacts s). cid c \<noteq> i"
    using that by (simp add: map_idI)
  ultimately show ?thesis
    by (simp add: handleToggleFavorite_def showToast_def Let_def split: option.splits)
qed

theorem toggleFavorite_frame_witness:
  "contacts (handleToggleFavorite 1 (initApp [exampleBob, exampleAmy])) ! 0
     = exampleBob\<lparr> isFavorite := True \<rparr> \<and>
   contacts (handleToggleFavorite 1 (initApp [exampleBob, exampleAmy])) ! 1 = exampleAmy \<and>
   handleToggleFavorite 7 (initApp [exampleBob, exampleAmy])
     = initApp [exampleBob, exampleAmy]"
proof -
  have a: "\<forall>c \<in> set (contacts (initApp [exampleBob, exampleAmy])). cid c \<noteq> 7"
    by (simp add: initApp_def exampleBob_def exampleAmy_def)
  have b: "contacts (initApp [exampleBob, exampleAmy]) = [exampleBob, exampleAmy]"
    by (simp add: initApp_def exampleBob_def exampleAmy_def)
  have c: "cid exampleBob = 1" "cid exampleAmy = 2" "\<not> isFavorite exampleBob"
    by (simp_all add: exampleBob_def exampleAmy_def)
  from toggleFavorite_frame [of 7 "initApp [exampleBob, exampleAmy]"] a
  have "handleToggleFavorite 7 (initApp [exampleBob, exampleAmy])
          = initApp [exampleBob, exampleAmy]"
    by blast
  moreover from toggleFavorite_frame [of 1 "initApp [exampleBob, exampleAmy]"]
  have "\<forall>k<2. contacts (handleToggleFavorite 1 (initApp [exampleBob, exampleAmy])) ! k =
        (if cid ([exampleBob, exampleAmy] ! k) = 1
         then ([exampleBob, exampleAmy] ! k)
                \<lparr> isFavorite := \<not> isFavorite ([exampleBob, exampleAmy] ! k) \<rparr>
         else [exampleBob, exampleAmy] ! k)"
    by (simp add: b)
  then have "contacts (handleToggleFavorite 1 (initApp [exampleBob, exampleAmy])) ! 0
               = exampleBob\<lparr> isFavorite := True \<rparr>"
    and "contacts (handleToggleFavorite 1 (initApp [exampleBob, exampleAmy])) ! 1 = exampleAmy"
    using c by (auto simp: nth_Cons')
  ultimately show ?thesis by simp
qed

section \<open>Updating a contact\<close>

text \<open>
  Counterexample to claim C5 as stated. Updating with a contact whose id matches no record
  does not fail: the handler leaves the collection as it is and shows the notification of a
  successful update.
\<close>

theorem update_unknown_id_reports_success:
  "find (\<lambda>c. cid c = 99) (contacts (initApp [exampleBob, exampleAmy])) = None \<and>
   contacts (handleUpdateContact (exampleBob\<lparr> cid := 99 \<rparr>) (initApp [exampleBob, exampleAmy]))
     = contacts (initApp [exampleBob, exampleAmy]) \<and>
   toast (handleUpdateContact (exampleBob\<lparr> cid := 99 \<rparr>) (initApp [exampleBob, exampleAmy]))
     = \<lparr> show_t = True, message = checkMark @ '' Bob updated successfully!'',
         type_t = ''success'' \<rparr>"
  by (simp add: handleUpdateContact_def handleCloseEditForm_def showToast_def initApp_def
      exampleBob_def exampleAmy_def)

text \<open>
  Claim C5, amended. The update handler keeps the length and order of the collection and
  replaces every record whose id equals the id of the given contact by that contact; the
  other records stay as they are. When no id matches, the collection is unchanged and no
  error is raised: the handler shows the success notification in every case, and opening
  the edit form for an id that matches no record does nothing.
\<close>

theorem update_replaces_matching:
  "length (contacts (handleUpdateContact u s)) = length (contacts s) \<and>
   (\<forall>k < length (contacts s).
      contacts (handleUpdateContact u s) ! k =
        (if cid (contacts s ! k) = cid u then u else contacts s ! k)) \<and>
   ((\<forall>c \<in> set (contacts s). cid c \<noteq> cid u) \<longrightarrow>
      contacts (handleUpdateContact u s) = contacts s) \<and>
   toast (handleUpdateContact u s) =
     \<lparr> show_t = True, message = checkMark @ '' '' @ name u @ '' updated successfully!'',
       type_t = ''success'' \<rparr> \<and>
   (find (\<lambda>c. cid c = i) (contacts s) = None \<longrightarrow> updateContact i fd s = editSubmit fd s)"
  by (simp add: handleUpdateContact_def handleCloseEditForm_def showToast_def map_idI
      updateContact_def handleShowEditForm_def)

theorem update_replaces_matching_witness:
  "contacts (handleUpdateContact (exampleBob\<lparr> phone := ''555-0199'' \<rparr>)
     (initApp [exampleBob, exampleAmy])) ! 0 = exampleBob\<lparr> phone := ''555-0199'' \<rparr> \<and>
   contacts (handleUpdateContact (exampleBob\<lparr> cid := 42 \<rparr>)
     (initApp [exampleBob, exampleAmy])) = [exampleBob, exampleAmy]"
proof -
  have a: "contacts (initApp [exampleBob, exampleAmy]) = [exampleBob, exampleAmy]"
    by (simp add: initApp_def exampleBob_def exampleAmy_def)
  have b: "\<forall>c \<in> set (contacts (initApp [exampleBob, exampleAmy])).
             cid c \<noteq> cid (exampleBob\<lparr> cid := 42 \<rparr>)"
    by (simp add: a) (simp add: exampleBob_def exampleAmy_def)
  from update_replaces_matching
         [of "exampleBob\<lparr> cid := 42 \<rparr>" "initApp [exampleBob, exampleAmy]"] b
  have "contacts (handleUpdateContact (exampleBob\<lparr> cid := 42 \<rparr>)
          (initApp [exampleBob, exampleAmy])) = [exampleBob, exampleAmy]"
    using a by simp
  moreover from update_replaces_matching
         [of "exampleBob\<lparr> phone := ''555-0199'' \<rparr>" "initApp [exampleBob, exampleAmy]"]
  have "contacts (handleUpdateContact (exampleBob\<lparr> phone := ''555-0199'' \<rparr>)
     (initApp [exampleBob, exampleAmy])) ! 0 = exampleBob\<lparr> phone := ''555-0199'' \<rparr>"
    using a by simp
  ultimately show ?thesis by simp
qed

section \<open>The timers of the notifications\<close>

text \<open>
  Counterexample to claim C6 as stated. After two deletions in a row two delete timers are
  outstanding; the first of them, when it fires, empties the pending slot that by then
  holds the second record. After an undo the delete timer is still outstanding, and its
  expiry fires although the undo succeeded, hiding the notification shown by then.
\<close>

theorem delete_timers_pile_up:
  "timers (requestDelete 2 (requestDelete 1 (initApp [exampleBob, exampleAmy])))
     = [''delete'', ''delete''] \<and>
   deletedContact (requestDelete 2 (requestDelete 1 (initApp [exampleBob, exampleAmy])))
     = Some exampleAmy \<and>
   deletedContact (fireTimer (requestDelete 2 (requestDelete 1 (initApp [exampleBob, exampleAmy]))))
     = None \<and>
   timers (fireTimer (requestDelete 2 (requestDelete 1 (initApp [exampleBob, exampleAmy]))))
     = [''delete''] \<and>
   contacts (undoClick (requestDelete 1 (initApp [exampleBob, exampleAmy])))
     = [exampleAmy, exampleBob] \<and>
   timers (undoClick (requestDelete 1 (initApp [exampleBob, exampleAmy])))
     = [''delete'', ''success''] \<and>
   show_t (toast (undoClick (requestDelete 1 (initApp [exampleBob, exampleAmy])))) \<and>
   \<not> show_t (toast (fireTimer (undoClick (requestDelete 1 (initApp [exampleBob, exampleAmy])))))"
  by (simp add: requestDelete_def handleDeleteContact_def handleConfirmDelete_def
      showToast_def initApp_def exampleBob_def exampleAmy_def fireTimer_def toastTimeout_def
      undoClick_def undoAvailable_def handleUndoDelete_def)

text \<open>
  Claim C6, amended. Timers are never cancelled: confirming a deletion and undoing one each
  schedule one more expiry and remove none. An expiry removes itself only, hides the
  notification shown at that time, never changes the active collection, and empties the
  pending slot exactly when it belongs to a delete notification, whichever record the slot
  holds. An undo appends the pending record and empties the slot itself.
\<close>

theorem timers_never_cancelled:
  "(contactToDelete s = Some d \<longrightarrow> timers (handleConfirmDelete s) = timers s @ [''delete'']) \<and>
   (deletedContact s = Some d \<longrightarrow>
      timers (handleUndoDelete s) = timers s @ [''success''] \<and>
      contacts (handleUndoDelete s) = contacts s @ [d] \<and>
      deletedContact (handleUndoDelete s) = None) \<and>
   contacts (fireTimer s) = contacts s \<and>
   (timers s = ty # rest \<longrightarrow>
      timers (fireTimer s) = rest \<and>
      \<not> show_t (toast (fireTimer s)) \<and>
      deletedContact (fireTimer s) = (if ty = ''delete'' then None else deletedContact s))"
  by (simp add: handleConfirmDelete_def handleUndoDelete_def showToast_def fireTimer_def
      toastTimeout_def split: list.splits)

theorem timers_never_cancelled_witness:
  "timers (handleConfirmDelete (handleDeleteContact 1 (initApp [exampleBob, exampleAmy])))
     = [''delete''] \<and>
   contacts (handleUndoDelete (requestDelete 1 (initApp [exampleBob, exampleAmy])))
     = [exampleAmy, exampleBob] \<and>
   deletedContact (fireTimer (requestDelete 1 (initApp [exampleBob, exampleAmy]))) = None"
proof -
  let ?s0 = "initApp [exampleBob, exampleAmy]"
  have a: "contactToDelete (handleDeleteContact 1 ?s0) = Some exampleBob"
    "timers (handleDeleteContact 1 ?s0) = []"
    by (simp_all add: handleDeleteContact_def initApp_def exampleBob_def exampleAmy_def)
  have b: "deletedContact (requestDelete 1 ?s0) = Some exampleBob"
    "contacts (requestDelete 1 ?s0) = [exampleAmy]"
    "timers (requestDelete 1 ?s0) = [''delete'']"
    by (simp_all add: requestDelete_def handleDeleteContact_def handleConfirmDelete_def
        showToast_def initApp_def exampleBob_def exampleAmy_def)
  from timers_never_cancelled [of "handleDeleteContact 1 ?s0" exampleBob] a
  have "timers (handleConfirmDelete (handleDeleteContact 1 ?s0)) = [''delete'']" by simp
  moreover from timers_never_cancelled [of "requestDelete 1 ?s0" exampleBob] b
  have "contacts (handleUndoDelete (requestDelete 1 ?s0)) = [exampleAmy, exampleBob]" by simp
  moreover from timers_never_cancelled [of "requestDelete 1 ?s0" _ "''delete''" "[]"] b
  have "deletedContact (fireTimer (requestDelete 1 ?s0)) = None" by simp
  ultimately show ?thesis by simp
qed

section \<open>Adding contacts\<close>

lemma addContact_accepted:
  "noErrors (validateForm fd (contacts s)) \<Longrightarrow>
     contacts (addContact now fd s) = newContact now fd # contacts s"
  by (simp add: addContact_def addSubmit_def handleShowAddForm_def handleCloseAddForm_def
      handleAddContact_def showToast_def newContact_def)

lemma addContact_rejected:
  "\<not> noErrors (validateForm fd (contacts s)) \<Longrightarrow> addContact now fd s = handleShowAddForm s"
  by (simp add: addContact_def addSubmit_def handleShowAddForm_def)

lemma issuedIds_subset: "set (issuedIds reqs s) \<subseteq> fst ` set reqs"
  by (induction reqs s rule: issuedIds.induct) (auto simp: newContact_def)

lemma issuedIds_distinct: "distinct (map fst reqs) \<Longrightarrow> distinct (issuedIds reqs s)"
proof (induction reqs s rule: issuedIds.induct)
  case (1 s)
  then show ?case by simp
next
  case (2 now fd rest s)
  have "now \<notin> set (issuedIds rest (addContact now fd s))"
    using issuedIds_subset [of rest "addContact now fd s"] "2.prems" by auto
  then show ?case using 2 by (simp add: newContact_def)
qed

lemma addAll_contacts:
  "map cid (contacts (addAll reqs s)) = rev (issuedIds reqs s) @ map cid (contacts s)"
proof (induction reqs s rule: addAll.induct)
  case (1 s)
  then show ?case by simp
next
  case (2 now fd rest s)
  show ?case
  proof (cases "noErrors (validateForm fd (contacts s))")
    case True
    then show ?thesis using 2 by (simp add: addContact_accepted)
  next
    case False
    then show ?thesis using 2
      by (simp add: addContact_rejected) (simp add: handleShowAddForm_def)
  qed
qed

text \<open>
  Counterexample to claim C7 as stated. Two additions submitted at the same clock reading
  get the same id, and an addition whose clock reading equals the id of a seed contact
  gets that id.
\<close>

theorem same_clock_reading_same_id:
  "map cid (contacts (addAll [(1000, exampleForm), (1000, exampleForm2)]
      (initApp [exampleBob, exampleAmy]))) = [1000, 1000, 1, 2] \<and>
   map cid (contacts (addAll [(2, exampleForm)] (initApp [exampleBob, exampleAmy]))) = [2, 1, 2]"
  by (simp add: addContact_def addSubmit_def handleShowAddForm_def handleCloseAddForm_def
      handleAddContact_def showToast_def newContact_def validateForm_def noErrors_def
      initApp_def exampleBob_def exampleAmy_def exampleForm_def exampleForm2_def
      trim_def isWhiteSpace_def)

text \<open>
  Claim C7, amended. An accepted addition prepends a record whose id is the clock reading
  at its submission; the ids of the records added by a series of submissions are the ids
  issued, newest first. When the clock readings of the submissions are pairwise distinct
  and differ from every id issued earlier, the ids issued are pairwise distinct and differ
  from every id issued earlier.
\<close>

theorem added_id_is_clock_reading:
  "(noErrors (validateForm fd (contacts s)) \<longrightarrow>
      contacts (addContact now fd s) = newContact now fd # contacts s \<and>
      cid (newContact now fd) = now) \<and>
   map cid (contacts (addAll reqs s)) = rev (issuedIds reqs s) @ map cid (contacts s) \<and>
   (distinct (map fst reqs) \<and> fst ` set reqs \<inter> earlier = {} \<longrightarrow>
      distinct (issuedIds reqs s) \<and> set (issuedIds reqs s) \<inter> earlier = {})"
  using issuedIds_subset [of reqs s]
  by (auto simp: addContact_accepted addAll_contacts issuedIds_distinct newContact_def)

theorem added_id_is_clock_reading_witness:
  "contacts (addContact 1000 exampleForm (initApp [exampleBob, exampleAmy]))
     = newContact 1000 exampleForm # contacts (initApp [exampleBob, exampleAmy]) \<and>
   map cid (contacts (addAll [(1000, exampleForm), (1001, exampleForm2)]
      (initApp [exampleBob, exampleAmy]))) = [1001, 1000, 1, 2] \<and>
   distinct (issuedIds [(1000, exampleForm), (1001, exampleForm2)]
      (initApp [exampleBob, exampleAmy]))"
proof -
  let ?s0 = "initApp [exampleBob, exampleAmy]"
  let ?reqs = "[(1000 :: int, exampleForm), (1001, exampleForm2)]"
  note inst = added_id_is_clock_reading [of exampleForm ?s0 1000 ?reqs "{1, 2 :: int}"]
  have ok: "noErrors (validateForm exampleForm (contacts ?s0))"
    by (simp add: validateForm_def noErrors_def initApp_def exampleBob_def exampleAmy_def
        exampleForm_def trim_def isWhiteSpace_def)
  have ids: "issuedIds ?reqs ?s0 = [1000, 1001]"
    by (simp add: addContact_def addSubmit_def handleShowAddForm_def handleCloseAddForm_def
      handleAddContact_def showToast_def newContact_def validateForm_def noErrors_def
      initApp_def exampleBob_def exampleAmy_def exampleForm_def exampleForm2_def
      trim_def isWhiteSpace_def)
  have seeds: "map cid (contacts ?s0) = [1, 2]"
    by (simp add: initApp_def exampleBob_def exampleAmy_def)
  have pre: "distinct (map fst ?reqs) \<and> fst ` set ?reqs \<inter> {1, 2 :: int} = {}"
    by simp
  have first: "contacts (addContact 1000 exampleForm ?s0)
                 = newContact 1000 exampleForm # contacts ?s0"
    using inst ok by blast
  have "map cid (contacts (addAll ?reqs ?s0)) = rev (issuedIds ?reqs ?s0) @ map cid (contacts ?s0)"
    using inst by (rule conjunct1 [OF conjunct2])
  then have second: "map cid (contacts (addAll ?reqs ?s0)) = [1001, 1000, 1, 2]"
    by (simp only: ids seeds) simp
  have third: "distinct (issuedIds ?reqs ?s0)"
    using inst pre by blast
  from first second third show ?thesis by blast
qed

section \<open>Validation of the phone number\<close>

text \<open>
  Counterexample to claim C4 as stated. A stored phone with a trailing space and a
  candidate phone with the same digits have equal trimmed values, yet validation reports
  no duplicate and accepts the candidate.
\<close>

theorem padded_phone_not_reported:
  "trim (phone paddedSeed) = trim (fd_phone clashForm) \<and>
   \<not> duplicatePhone (validateAgainst clashForm [paddedSeed] None) \<and>
   noErrors (validateAgainst clashForm [paddedSeed] None)"
  by (simp add: validateAgainst_def validateForm_def duplicatePhone_def noErrors_def
      paddedSeed_def clashForm_def trim_def isWhiteSpace_def)

lemma duplicatePhone_validateForm:
  "duplicatePhone (validateForm fd existing) \<longleftrightarrow>
     trim (fd_phone fd) \<noteq> [] \<and> (\<exists>c \<in> set existing. phone c = trim (fd_phone fd))"
  by (simp add: duplicatePhone_def validateForm_def list_ex_iff)

text \<open>
  Claim C4, amended. Validation reports a duplicate phone exactly when the trimmed phone of
  the candidate is not empty and some active contact, other than those with the excluded
  id, has a stored phone equal to it; the stored phone is compared as it is stored. When
  every stored phone is trimmed and not empty this is the equality of the trimmed phones.
  A submission of the add form rejected for a duplicate phone leaves the state unchanged.
\<close>

theorem duplicate_phone_iff:
  "(duplicatePhone (validateAgainst fd active excludeId) \<longleftrightarrow>
      trim (fd_phone fd) \<noteq> [] \<and>
      (\<exists>c \<in> set active. excludeId \<noteq> Some (cid c) \<and> phone c = trim (fd_phone fd))) \<and>
   (list_all (\<lambda>c. trim (phone c) = phone c \<and> phone c \<noteq> []) active \<longrightarrow>
      (duplicatePhone (validateAgainst fd active excludeId) \<longleftrightarrow>
         (\<exists>c \<in> set active. excludeId \<noteq> Some (cid c) \<and>
            trim (phone c) = trim (fd_phone fd)))) \<and>
   (duplicatePhone (validateForm fd (contacts s)) \<longrightarrow> addSubmit now fd s = s)"
proof -
  have 1: "duplicatePhone (validateAgainst fd active excludeId) \<longleftrightarrow>
      trim (fd_phone fd) \<noteq> [] \<and>
      (\<exists>c \<in> set active. excludeId \<noteq> Some (cid c) \<and> phone c = trim (fd_phone fd))"
  proof (cases excludeId)
    case None
    then show ?thesis by (simp add: validateAgainst_def duplicatePhone_validateForm)
  next
    case (Some i)
    have "(\<exists>c \<in> set (filter (\<lambda>c. cid c \<noteq> i) active). phone c = trim (fd_phone fd))
          \<longleftrightarrow> (\<exists>c \<in> set active. i \<noteq> cid c \<and> phone c = trim (fd_phone fd))"
      by auto
    then show ?thesis using Some
      by (simp add: validateAgainst_def duplicatePhone_validateForm)
  qed
  have 2: "duplicatePhone (validateAgainst fd active excludeId) \<longleftrightarrow>
         (\<exists>c \<in> set active. excludeId \<noteq> Some (cid c) \<and>
            trim (phone c) = trim (fd_phone fd))"
    if "list_all (\<lambda>c. trim (phone c) = phone c \<and> phone c \<noteq> []) active"
    using that unfolding 1 by (auto simp: list_all_iff)
  have 3: "addSubmit now fd s = s" if "duplicatePhone (validateForm fd (contacts s))"
    using that by (simp add: addSubmit_def noErrors_def duplicatePhone_def)
  from 1 2 3 show ?thesis by blast
qed

theorem duplicate_phone_iff_witness:
  "duplicatePhone (validateAgainst clashForm [exampleBob, exampleAmy] None) \<and>
   \<not> duplicatePhone (validateAgainst clashForm [exampleBob, exampleAmy] (Some 1)) \<and>
   addSubmit 1000 clashForm (initApp [exampleBob, exampleAmy])
     = initApp [exampleBob, exampleAmy]"
proof -
  let ?s0 = "initApp [exampleBob, exampleAmy]"
  have cs: "contacts ?s0 = [exampleBob, exampleAmy]"
    by (simp add: initApp_def exampleBob_def exampleAmy_def)
  have stored: "list_all (\<lambda>c. trim (phone c) = phone c \<and> phone c \<noteq> [])
                  [exampleBob, exampleAmy]"
    by (simp add: exampleBob_def exampleAmy_def trim_def isWhiteSpace_def)
  have t: "trim (fd_phone clashForm) = ''555-0100''" "trim (phone exampleBob) = ''555-0100''"
    "trim (phone exampleAmy) = ''555-0101''" "cid exampleBob = 1" "cid exampleAmy = 2"
    by (simp_all add: clashForm_def exampleBob_def exampleAmy_def trim_def isWhiteSpace_def)
  note inst = duplicate_phone_iff [of clashForm "[exampleBob, exampleAmy]" _ ?s0 1000]
  have "\<exists>c \<in> set [exampleBob, exampleAmy]. None \<noteq> Some (cid c) \<and>
            trim (phone c) = trim (fd_phone clashForm)"
    by (simp add: t)
  then have a: "duplicatePhone (validateAgainst clashForm [exampleBob, exampleAmy] None)"
    using inst [of None] stored by blast
  have "\<not> (\<exists>c \<in> set [exampleBob, exampleAmy]. Some 1 \<noteq> Some (cid c) \<and>
            trim (phone c) = trim (fd_phone clashForm))"
    by (simp add: t)
  then have b: "\<not> duplicatePhone (validateAgainst clashForm [exampleBob, exampleAmy] (Some 1))"
    using inst [of "Some 1"] stored by blast
  have "duplicatePhone (validateForm clashForm (contacts ?s0))"
    using a by (simp add: validateAgainst_def cs)
  then have c: "addSubmit 1000 clashForm ?s0 = ?s0"
    using inst [of None] by blast
  from a b c show ?thesis by blast
qed

section \<open>The derived view: filtering\<close>

lemma startsWith_iff_prefix: "startsWith s q \<longleftrightarrow> prefix q s"
  by (induction s q rule: startsWith.induct) auto

lemma str_includes_iff_sublist: "str_includes s q \<longleftrightarrow> sublist q s"
  by (induction s) (auto simp: startsWith_iff_prefix sublist_Cons_right)

lemma str_includes_iff: "str_includes s q \<longleftrightarrow> (\<exists>pre post. s = pre @ q @ post)"
  by (simp add: str_includes_iff_sublist sublist_def)

lemma mset_insertBy: "mset (insertBy cmp x xs) = add_mset x (mset xs)"
  by (induction xs) auto

lemma mset_sortBy: "mset (sortBy cmp xs) = mset xs"
  by (induction xs) (auto simp: mset_insertBy)

text \<open>
  Claim C2. When the trimmed search text is empty the derived view holds exactly the active
  contacts; otherwise it holds exactly the active contacts whose lower-cased name contains
  the lower-cased search text as a contiguous piece. Both as multisets, so that no contact
  is lost or repeated.
\<close>

theorem view_filter:
  "(trim q = [] \<longrightarrow> mset (derive cs q) = mset cs) \<and>
   (trim q \<noteq> [] \<longrightarrow>
      mset (derive cs q) =
        mset (filter (\<lambda>c. \<exists>pre post. toLowerCase (name c) = pre @ toLowerCase q @ post) cs))"
  by (simp add: derive_def filterContacts_def mset_sortBy str_includes_iff)

theorem view_filter_witness:
  "mset (derive [exampleBob, exampleAmy] ''am'') = {#exampleAmy#} \<and>
   mset (derive [exampleBob, exampleAmy] []) = {#exampleBob, exampleAmy#}"
proof -
  have "trim ''am'' \<noteq> []" by (simp add: trim_def isWhiteSpace_def)
  then have "mset (derive [exampleBob, exampleAmy] ''am'') =
        mset (filter (\<lambda>c. \<exists>pre post. toLowerCase (name c) = pre @ toLowerCase ''am'' @ post)
          [exampleBob, exampleAmy])"
    using view_filter [of "''am''" "[exampleBob, exampleAmy]"] by blast
  also have "\<dots> = mset (filter (\<lambda>c. str_includes (toLowerCase (name c)) (toLowerCase ''am''))
          [exampleBob, exampleAmy])"
    by (simp only: str_includes_iff)
  also have "\<dots> = {#exampleAmy#}"
    by (simp add: exampleBob_def exampleAmy_def toLowerCase_def toLowerChar_def
        upperLetters_def lowerLetters_def)
  finally have a: "mset (derive [exampleBob, exampleAmy] ''am'') = {#exampleAmy#}" .
  have "trim [] = []" by (simp add: trim_def)
  then have b: "mset (derive [exampleBob, exampleAmy] []) = {#exampleBob, exampleAmy#}"
    using view_filter [of "[]" "[exampleBob, exampleAmy]"] by simp
  from a b show ?thesis by blast
qed

section \<open>The derived view: ordering\<close>

lemma compareWeights_le_iff: "compareWeights xs ys \<le> 0 \<longleftrightarrow> xs \<le> ys"
  by (induction xs ys rule: compareWeights.induct) auto

lemma compareWeights_eq_iff: "compareWeights xs ys = 0 \<longleftrightarrow> xs = ys"
  by (induction xs ys rule: compareWeights.induct) auto

lemma localeCompare_le_iff:
  "localeCompare a b \<le> 0 \<longleftrightarrow>
     map primaryWeight a < map primaryWeight b \<or>
     (map primaryWeight a = map primaryWeight b \<and> map tertiaryWeight a \<le> map tertiaryWeight b)"
  using compareWeights_le_iff [of "map primaryWeight a" "map primaryWeight b"]
    compareWeights_eq_iff [of "map primaryWeight a" "map primaryWeight b"]
    compareWeights_le_iff [of "map tertiaryWeight a" "map tertiaryWeight b"]
  by (auto simp: localeCompare_def Let_def)

lemma compareContacts_le_iff: "compareContacts a b \<le> 0 \<longleftrightarrow> sortKey a \<le> sortKey b"
  by (auto simp: compareContacts_def sortKey_def localeCompare_le_iff)

lemma insertBy_insort_key: "insertBy compareContacts x xs = insort_key sortKey x xs"
  by (induction xs) (simp_all add: compareContacts_le_iff)

lemma sortBy_sort_key: "sortBy compareContacts xs = sort_key sortKey xs"
  by (induction xs) (simp_all add: insertBy_insort_key)

lemma toLowerChar_idem: "toLowerChar (toLowerChar c) = toLowerChar c"
  by (auto simp: toLowerChar_def upperLetters_def lowerLetters_def)

lemma primaryWeight_toLowerCase: "map primaryWeight (toLowerCase s) = map primaryWeight s"
  by (simp add: toLowerCase_def primaryWeight_def toLowerChar_idem)

lemma toLowerCase_eq_primary:
  "toLowerCase a = toLowerCase b \<Longrightarrow> map primaryWeight a = map primaryWeight b"
  by (metis primaryWeight_toLowerCase)



lemma sorted_view: "sorted (map sortKey (derive cs q))"
  by (simp add: derive_def sortBy_sort_key)

lemma view_pair:
  assumes "i < j" and "j < length (derive cs q)"
  shows "sortKey (derive cs q ! i) \<le> sortKey (derive cs q ! j)"
  using sorted_nth_mono [OF sorted_view, of i j cs q] assms by simp

lemma sortKey_le_D:
  assumes "sortKey a \<le> sortKey b"
  shows "(isFavorite b \<longrightarrow> isFavorite a) \<and>
         (isFavorite a = isFavorite b \<longrightarrow>
            localeCompare (name a) (name b) \<le> 0 \<and>
            map primaryWeight (toLowerCase (name a)) \<le> map primaryWeight (toLowerCase (name b)) \<and>
            (toLowerCase (name a) = toLowerCase (name b) \<longrightarrow>
               map tertiaryWeight (name a) \<le> map tertiaryWeight (name b)))"
proof -
  have fav: "isFavorite b \<longrightarrow> isFavorite a"
    using assms by (auto simp: sortKey_def)
  have grp: "localeCompare (name a) (name b) \<le> 0" if "isFavorite a = isFavorite b"
    using assms that by (auto simp: sortKey_def localeCompare_le_iff)
  have prim: "map primaryWeight (toLowerCase (name a)) \<le> map primaryWeight (toLowerCase (name b))"
    if "isFavorite a = isFavorite b"
    using grp [OF that] by (auto simp: localeCompare_le_iff primaryWeight_toLowerCase)
  have tert: "map tertiaryWeight (name a) \<le> map tertiaryWeight (name b)"
    if "isFavorite a = isFavorite b" and "toLowerCase (name a) = toLowerCase (name b)"
    using grp [OF that(1)] toLowerCase_eq_primary [OF that(2)]
    by (auto simp: localeCompare_le_iff)
  from fav grp prim tert show ?thesis by blast
qed

lemma view_stable:
  "filter (\<lambda>c. isFavorite c = f \<and> name c = n) (derive cs q) =
   filter (\<lambda>c. isFavorite c = f \<and> name c = n) (filterContacts cs q)"
proof -
  let ?k = "(\<not> f, map primaryWeight n, map tertiaryWeight n)"
  let ?P = "\<lambda>c. isFavorite c = f \<and> name c = n"
  have split: "filter ?P xs = filter ?P (filter (\<lambda>c. sortKey c = ?k) xs)" for xs
    by (induction xs) (auto simp: sortKey_def)
  have "filter ?P (derive cs q) = filter ?P (filter (\<lambda>c. sortKey c = ?k) (derive cs q))"
    by (rule split)
  also have "\<dots> = filter ?P (filter (\<lambda>c. sortKey c = ?k) (filterContacts cs q))"
    by (simp only: derive_def sortBy_sort_key sort_key_stable)
  also have "\<dots> = filter ?P (filterContacts cs q)"
    by (rule split [symmetric])
  finally show ?thesis .
qed

text \<open>
  Counterexample to claim C3 as stated. Two contacts with the same favorite flag whose
  names differ in case only are a tie for a case-insensitive comparison, and a stable sort
  by such a comparison keeps them in their prior order; the derived view puts the
  lower-case name first.
\<close>

theorem case_ties_reordered:
  "isFavorite upperAmy = isFavorite lowerAmy \<and>
   toLowerCase (name upperAmy) = toLowerCase (name lowerAmy) \<and>
   specDerive [upperAmy, lowerAmy] [] = [upperAmy, lowerAmy] \<and>
   derive [upperAmy, lowerAmy] [] = [lowerAmy, upperAmy]"
  by (simp add: derive_def specDerive_def filterContacts_def trim_def compareContacts_def
      localeCompare_def specSortKey_def upperAmy_def lowerAmy_def primaryWeight_def
      tertiaryWeight_def toLowerCase_def toLowerChar_def upperLetters_def lowerLetters_def
      collationOrder_def)

text \<open>
  Claim C3, amended. In the derived view every favorite contact precedes every non-favorite
  one. Within a favorite group the names are in the order of \<open>localeCompare\<close>: their
  lower-cased forms are in lexicographic order of the collation weights, and names equal
  up to case are ordered by case, lower case first at the first difference. Contacts of
  a group with identical names keep their prior relative order. (The order \<open>\<le>\<close> on lists
  of weights is the lexicographic one.)
\<close>

theorem view_sorted:
  "(\<forall>i j. i < j \<and> j < length (derive cs q) \<longrightarrow>
      (isFavorite (derive cs q ! j) \<longrightarrow> isFavorite (derive cs q ! i)) \<and>
      (isFavorite (derive cs q ! i) = isFavorite (derive cs q ! j) \<longrightarrow>
         localeCompare (name (derive cs q ! i)) (name (derive cs q ! j)) \<le> 0 \<and>
         map primaryWeight (toLowerCase (name (derive cs q ! i)))
           \<le> map primaryWeight (toLowerCase (name (derive cs q ! j))) \<and>
         (toLowerCase (name (derive cs q ! i)) = toLowerCase (name (derive cs q ! j)) \<longrightarrow>
            map tertiaryWeight (name (derive cs q ! i))
              \<le> map tertiaryWeight (name (derive cs q ! j))))) \<and>
   (\<forall>f n. filter (\<lambda>c. isFavorite c = f \<and> name c = n) (derive cs q) =
          filter (\<lambda>c. isFavorite c = f \<and> name c = n) (filterContacts cs q))"
  using sortKey_le_D [OF view_pair, of _ _ cs q] view_stable [of _ _ cs q]
  by blast


theorem view_sorted_witness:
  "derive [exampleBob, exampleAmy] [] = [exampleAmy, exampleBob] \<and>
   derive [exampleBob\<lparr> isFavorite := True \<rparr>, exampleAmy] []
     = [exampleBob\<lparr> isFavorite := True \<rparr>, exampleAmy] \<and>
   localeCompare (name exampleAmy) (name exampleBob) \<le> 0 \<and>
   filter (\<lambda>c. isFavorite c = False \<and> name c = ''Bob'') (derive [exampleBob, exampleAmy] [])
     = [exampleBob]"
proof -
  have v: "derive [exampleBob, exampleAmy] [] = [exampleAmy, exampleBob]"
    by (simp add: derive_def filterContacts_def trim_def compareContacts_def
      localeCompare_def exampleBob_def exampleAmy_def primaryWeight_def
      tertiaryWeight_def toLowerChar_def upperLetters_def lowerLetters_def
      collationOrder_def)
  have w: "derive [exampleBob\<lparr> isFavorite := True \<rparr>, exampleAmy] []
     = [exampleBob\<lparr> isFavorite := True \<rparr>, exampleAmy]"
    by (simp add: derive_def filterContacts_def trim_def compareContacts_def
      exampleBob_def exampleAmy_def)
  have f: "filterContacts [exampleBob, exampleAmy] [] = [exampleBob, exampleAmy]"
    by (simp add: filterContacts_def trim_def)
  have g: "isFavorite exampleAmy = isFavorite exampleBob" "name exampleBob = ''Bob''"
    "name exampleAmy = ''Amy''" "\<not> isFavorite exampleBob"
    by (simp_all add: exampleBob_def exampleAmy_def)
  note inst = view_sorted [of "[exampleBob, exampleAmy]" "[]"]
  have "localeCompare (name (derive [exampleBob, exampleAmy] [] ! 0))
          (name (derive [exampleBob, exampleAmy] [] ! 1)) \<le> 0"
    using inst [THEN conjunct1, rule_format, of 0 1] v g by simp
  then have a: "localeCompare (name exampleAmy) (name exampleBob) \<le> 0"
    by (simp add: v)
  have "filter (\<lambda>c. isFavorite c = False \<and> name c = ''Bob'') (derive [exampleBob, exampleAmy] [])
        = filter (\<lambda>c. isFavorite c = False \<and> name c = ''Bob'')
            (filterContacts [exampleBob, exampleAmy] [])"
    using inst [THEN conjunct2, rule_format, of False "''Bob''"] .
  then have b: "filter (\<lambda>c. isFavorite c = False \<and> name c = ''Bob'')
                  (derive [exampleBob, exampleAmy] []) = [exampleBob]"
    by (simp add: f g)
  from v w a b show ?thesis by blast
qed

section \<open>Uniqueness of phone numbers over a session\<close>

text \<open>Trimming twice is trimming once: the phone of a record built by a form is trimmed.\<close>

lemma dropWhile_rev_front:
  assumes "dropWhile P xs = xs"
  shows "dropWhile P (rev (dropWhile P (rev xs))) = rev (dropWhile P (rev xs))"
proof (cases "dropWhile P (rev xs) = []")
  case True
  then show ?thesis by (simp only: rev.simps dropWhile.simps)
next
  case False
  let ?ys = "rev (dropWhile P (rev xs))"
  have "rev (takeWhile P (rev xs) @ dropWhile P (rev xs)) = xs" by simp
  then have xs: "xs = ?ys @ rev (takeWhile P (rev xs))" by (simp only: rev_append)
  have ne: "?ys \<noteq> []" using False by simp
  then have "hd xs = hd ?ys" using xs by (metis hd_append2)
  moreover have "xs \<noteq> []" using xs ne by auto
  ultimately have "\<not> P (hd ?ys)" using assms by (metis dropWhile_eq_self_iff)
  then show ?thesis using ne by (simp add: dropWhile_eq_self_iff)
qed

lemma trim_idem: "trim (trim s) = trim s"
proof -
  let ?t = "dropWhile isWhiteSpace s"
  have a: "dropWhile isWhiteSpace (trim s) = trim s"
    unfolding trim_def by (rule dropWhile_rev_front) simp
  have "trim (trim s) = rev (dropWhile isWhiteSpace (rev (trim s)))"
    by (simp add: trim_def [of "trim s"] a)
  also have "rev (trim s) = dropWhile isWhiteSpace (rev (dropWhile isWhiteSpace s))"
    by (simp add: trim_def)
  also have "rev (dropWhile isWhiteSpace \<dots>) = trim s"
    by (simp add: trim_def)
  finally show ?thesis .
qed


lemma noErrors_phone_fresh:
  "noErrors (validateForm fd existing) \<Longrightarrow> trim (fd_phone fd) \<notin> phone ` set existing"
  by (auto simp: noErrors_def validateForm_def list_ex_iff split: if_splits)

text \<open>Every event of a session preserves the invariant \<open>sessionInv\<close>.\<close>

lemma sessionInv_mono: "sessionInv U s \<Longrightarrow> U \<subseteq> V \<Longrightarrow> sessionInv V s"
  by (auto simp: sessionInv_def split: option.splits)

lemma sessionInv_success_contacts:
  assumes "distinct (map cid cs)" and "cid ` set cs \<subseteq> U"
    and "list_all (\<lambda>c. trim (phone c) = phone c) cs" and "distinct (map phone cs)"
    and "contactToDelete s = None"
  shows "sessionInv U (showToast m ''success'' (s\<lparr> contacts := cs \<rparr>))"
  using assms by (simp add: sessionInv_def showToast_def split: option.splits)

lemma sessionInv_same_keys:
  assumes "sessionInv U s"
    and "map cid cs = map cid (contacts s)" and "map phone cs = map phone (contacts s)"
  shows "sessionInv U (s\<lparr> contacts := cs \<rparr>)"
proof -
  have a: "cid ` set cs = cid ` set (contacts s)"
    using assms(2) by (metis list.set_map)
  have b: "phone ` set cs = phone ` set (contacts s)"
    using assms(3) by (metis list.set_map)
  have "\<forall>c \<in> set (contacts s). trim (phone c) = phone c"
    using assms(1) by (simp add: sessionInv_def list_all_iff)
  then have "\<forall>p \<in> phone ` set cs. trim p = p"
    unfolding b by blast
  then have c: "list_all (\<lambda>c. trim (phone c) = phone c) cs"
    by (simp add: list_all_iff)
  show ?thesis
    using assms a b c by (simp add: sessionInv_def split: option.splits)
qed

lemma replace_keeps_phones_distinct:
  assumes "distinct (map cid cs)" and "distinct (map phone cs)"
    and "\<forall>x \<in> set cs. cid x \<noteq> cid u \<longrightarrow> phone x \<noteq> phone u"
  shows "distinct (map phone (map (\<lambda>x. if cid x = cid u then u else x) cs))"
  using assms
proof (induction cs)
  case Nil
  then show ?case by simp
next
  case (Cons x cs)
  let ?r = "\<lambda>x. if cid x = cid u then u else x"
  have tail: "distinct (map phone (map ?r cs))"
    using Cons by simp
  show ?case
  proof (cases "cid x = cid u")
    case True
    then have no: "\<forall>y \<in> set cs. cid y \<noteq> cid u"
      using Cons.prems(1) by (auto simp: image_iff)
    then have same: "map ?r cs = cs"
      by (simp add: map_idI)
    have "phone u \<notin> phone ` set cs"
      using no Cons.prems(3) by (auto simp: image_iff)
    then show ?thesis
      using True Cons.prems(2) same by simp
  next
    case False
    have "phone (?r y) \<noteq> phone x" if "y \<in> set cs" for y
    proof (cases "cid y = cid u")
      case True
      then show ?thesis using False Cons.prems(3) by auto
    next
      case no: False
      have "phone y \<noteq> phone x" using that Cons.prems(2) by (auto simp: image_iff)
      then show ?thesis using no by simp
    qed
    then have nx: "\<forall>y \<in> set cs. phone (?r y) \<noteq> phone x"
      by blast
    have "phone x \<notin> set (map phone (map ?r cs))"
    proof
      assume "phone x \<in> set (map phone (map ?r cs))"
      then obtain y where "y \<in> set cs" and "phone x = phone (?r y)"
        by auto
      then show False using nx by metis
    qed
    then show ?thesis
      using False tail by (simp del: map_map set_map)
  qed
qed

lemma sessionInv_add:
  assumes "sessionInv U s" and "now \<notin> U"
  shows "sessionInv (insert now U) (addContact now fd s)"
proof (cases "noErrors (validateForm fd (contacts s))")
  case False
  then have "addContact now fd s = s\<lparr> showAddForm := True \<rparr>"
    by (simp add: addContact_def addSubmit_def handleShowAddForm_def)
  moreover have "sessionInv (insert now U) (s\<lparr> showAddForm := True \<rparr>)"
    using sessionInv_mono [OF assms(1) subset_insertI, of now]
    by (auto simp: sessionInv_def split: option.splits)
  ultimately show ?thesis by simp
next
  case True
  have fresh: "trim (fd_phone fd) \<notin> phone ` set (contacts s)"
    using True by (rule noErrors_phone_fresh)
  have "now \<notin> cid ` set (contacts s)"
    using assms by (auto simp: sessionInv_def)
  then show ?thesis
    using True assms(1) fresh
    by (auto simp: addContact_def addSubmit_def handleShowAddForm_def handleCloseAddForm_def
        handleAddContact_def showToast_def newContact_def sessionInv_def trim_idem
        split: option.splits)
qed

lemma sessionInv_update:
  assumes "sessionInv U s"
  shows "sessionInv U (updateContact i fd s)"
proof -
  let ?s1 = "handleShowEditForm i s"
  have s1: "sessionInv U ?s1" and cs1: "contacts ?s1 = contacts s"
    using assms by (auto simp: handleShowEditForm_def sessionInv_def split: option.splits)
  show ?thesis
  proof (cases "contactToEdit ?s1")
    case None
    then show ?thesis using s1 by (simp add: updateContact_def editSubmit_def)
  next
    case (Some c)
    let ?ex = "filter (\<lambda>x. cid x \<noteq> cid c) (contacts s)"
    show ?thesis
    proof (cases "showEditForm ?s1 \<and> noErrors (validateForm fd ?ex)")
      case False
      then show ?thesis using s1 Some cs1 by (auto simp: updateContact_def editSubmit_def)
    next
      case True
      let ?u = "updatedContact c fd"
      let ?r = "\<lambda>x. if cid x = cid ?u then ?u else x"
      have u: "cid ?u = cid c" "phone ?u = trim (fd_phone fd)"
        by (simp_all add: updatedContact_def)
      have inv: "distinct (map cid (contacts s))" "cid ` set (contacts s) \<subseteq> U"
        "\<forall>x \<in> set (contacts s). trim (phone x) = phone x" "distinct (map phone (contacts s))"
        "contactToDelete ?s1 = None"
        using assms s1 by (simp_all add: sessionInv_def list_all_iff)
      have "trim (fd_phone fd) \<notin> phone ` set ?ex"
        using True noErrors_phone_fresh by blast
      then have "\<forall>x \<in> set (contacts s). cid x \<noteq> cid ?u \<longrightarrow> phone x \<noteq> phone ?u"
        unfolding u by (auto simp: image_iff)
      then have d: "distinct (map phone (map ?r (contacts s)))"
        using inv(1,4) by (rule replace_keeps_phones_distinct [rotated 2])
      have ids: "map cid (map ?r (contacts s)) = map cid (contacts s)"
        by (induction "contacts s") (simp_all add: comp_def)
      then have i1: "distinct (map cid (map ?r (contacts s)))"
        and i2: "cid ` set (map ?r (contacts s)) \<subseteq> U"
        using inv(1,2) by (metis, metis list.set_map)
      have t: "list_all (\<lambda>c. trim (phone c) = phone c) (map ?r (contacts s))"
        using inv(3) by (auto simp: list_all_iff u trim_idem)
      have "sessionInv U (showToast (checkMark @ '' '' @ name ?u @ '' updated successfully!'')
              ''success'' (?s1\<lparr> contacts := map ?r (contacts s) \<rparr>))"
        using i1 i2 t d inv(5) by (rule sessionInv_success_contacts)
      moreover have "sessionInv U (x\<lparr> showEditForm := a, contactToEdit := b \<rparr>)"
        if "sessionInv U x" for x a b
        using that by (simp add: sessionInv_def split: option.splits)
      ultimately have "sessionInv U (handleUpdateContact ?u ?s1)"
        unfolding handleUpdateContact_def handleCloseEditForm_def cs1 by blast
      then show ?thesis
        using True Some cs1 by (simp add: updateContact_def editSubmit_def)
    qed
  qed
qed

lemma sessionInv_delete:
  assumes "sessionInv U s"
  shows "sessionInv U (requestDelete i s)"
proof (cases "find (\<lambda>c. cid c = i) (contacts s)")
  case None
  then have "requestDelete i s = s"
    using assms
    by (simp add: requestDelete_def handleDeleteContact_def handleConfirmDelete_def
        sessionInv_def)
  then show ?thesis using assms by simp
next
  case (Some c)
  then have c: "c \<in> set (contacts s)"
    by (auto simp: find_Some_iff)
  have inj: "inj_on phone (set (contacts s))"
    using assms by (simp add: sessionInv_def distinct_map)
  have clash: "phone c \<notin> phone ` set (filter (\<lambda>x. cid x \<noteq> cid c) (contacts s))"
  proof
    assume "phone c \<in> phone ` set (filter (\<lambda>x. cid x \<noteq> cid c) (contacts s))"
    then obtain x where "x \<in> set (contacts s)" and "cid x \<noteq> cid c" and "phone c = phone x"
      by auto
    then show False using inj c by (metis inj_onD)
  qed
  show ?thesis
    using assms Some c clash
    by (auto simp: requestDelete_def handleDeleteContact_def handleConfirmDelete_def
        showToast_def sessionInv_def distinct_map_filter list_all_iff)
qed

lemma sessionInv_undo:
  assumes "sessionInv U s"
  shows "sessionInv U (undoClick s)"
  using assms
  by (auto simp: undoClick_def undoAvailable_def handleUndoDelete_def showToast_def
      sessionInv_def split: option.splits)

lemma sessionInv_toggle:
  assumes "sessionInv U s"
  shows "sessionInv U (handleToggleFavorite i s)"
proof -
  let ?g = "\<lambda>c. if cid c = i then c\<lparr> isFavorite := \<not> isFavorite c \<rparr> else c"
  have ids: "map cid (map ?g (contacts s)) = map cid (contacts s)"
    and phones: "map phone (map ?g (contacts s)) = map phone (contacts s)"
    by (induction "contacts s") (simp_all add: comp_def)
  have a: "sessionInv U (s\<lparr> contacts := map ?g (contacts s) \<rparr>)"
    using assms ids phones by (rule sessionInv_same_keys)
  then have "sessionInv U (showToast m ''success'' (s\<lparr> contacts := map ?g (contacts s) \<rparr>))" for m
    by (simp add: sessionInv_def showToast_def split: option.splits)
  then show ?thesis
    using a by (simp add: handleToggleFavorite_def Let_def split: option.splits)
qed

lemma sessionInv_search: "sessionInv U s \<Longrightarrow> sessionInv U (handleSearchChange q s)"
  by (simp add: handleSearchChange_def sessionInv_def split: option.splits)

lemma sessionInv_timer: "sessionInv U s \<Longrightarrow> sessionInv U (fireTimer s)"
  by (auto simp: fireTimer_def toastTimeout_def sessionInv_def split: list.splits option.splits)


lemma sessionInv_init:
  assumes "distinct (map cid seeds)" and "list_all (\<lambda>c. trim (phone c) = phone c) seeds"
    and "distinct (map phone seeds)"
  shows "sessionInv (cid ` set seeds) (initApp seeds)"
proof -
  let ?g = "\<lambda>c. c\<lparr> isFavorite := False \<rparr>"
  have "map cid (map ?g seeds) = map cid seeds" and "map phone (map ?g seeds) = map phone seeds"
    by (simp_all add: comp_def)
  moreover have "list_all (\<lambda>c. trim (phone c) = phone c) (map ?g seeds)"
    using assms(2) by (simp add: list_all_iff)
  moreover have "cid ` set (map ?g seeds) = cid ` set seeds"
    by (simp add: image_image)
  ultimately show ?thesis
    using assms by (simp add: sessionInv_def initApp_def del: map_map set_map)
qed

lemma sessionInv_step:
  assumes "sessionInv U s" and "set (addTimes [e]) \<inter> U = {}"
  shows "sessionInv (U \<union> set (addTimes [e])) (step e s)"
proof (cases e)
  case (Add now fd)
  then show ?thesis using sessionInv_add [OF assms(1), of now fd] assms(2) by simp
next
  case (Update i fd)
  then show ?thesis using sessionInv_update [OF assms(1)] by simp
next
  case (Delete i)
  then show ?thesis using sessionInv_delete [OF assms(1)] by simp
next
  case Undo
  then show ?thesis using sessionInv_undo [OF assms(1)] by simp
next
  case (ToggleFavorite i)
  then show ?thesis using sessionInv_toggle [OF assms(1)] by simp
next
  case (Search q)
  then show ?thesis using sessionInv_search [OF assms(1)] by simp
next
  case TimerExpires
  then show ?thesis using sessionInv_timer [OF assms(1)] by simp
qed

lemma addTimes_Cons: "addTimes (e # es) = addTimes [e] @ addTimes es"
  by (cases e) simp_all

lemma sessionInv_run:
  assumes "sessionInv U s" and "distinct (addTimes es)" and "set (addTimes es) \<inter> U = {}"
  shows "sessionInv (U \<union> set (addTimes es)) (run es s)"
  using assms
proof (induction es arbitrary: U s)
  case Nil
  then show ?case by simp
next
  case (Cons e es)
  have split: "addTimes (e # es) = addTimes [e] @ addTimes es"
    by (rule addTimes_Cons)
  have "sessionInv (U \<union> set (addTimes [e])) (step e s)"
    using Cons.prems(1,3) unfolding split by (intro sessionInv_step) auto
  moreover have "distinct (addTimes es)"
    and "set (addTimes es) \<inter> (U \<union> set (addTimes [e])) = {}"
    using Cons.prems(2,3) unfolding split by auto
  ultimately have "sessionInv (U \<union> set (addTimes [e]) \<union> set (addTimes es)) (run es (step e s))"
    by (rule Cons.IH)
  then show ?case unfolding split by (simp add: Un_assoc)
qed

lemma sessionInv_phonesDistinct:
  assumes "sessionInv U s"
  shows "phonesDistinct (contacts s)"
proof -
  have eq: "map (\<lambda>c. trim (phone c)) (contacts s) = map phone (contacts s)"
    using assms by (simp add: sessionInv_def list_all_iff)
  show ?thesis
    unfolding phonesDistinct_def eq using assms by (simp add: sessionInv_def)
qed

text \<open>
  Counterexample to claim C1 as stated. A seed whose phone is stored with a trailing space
  has a distinct trimmed phone on its own, yet an addition with the same number is accepted
  and the active collection then holds two contacts with equal trimmed phones. Likewise,
  after two additions at the same clock reading the two records share an id, and an update
  of that id overwrites both with one record, phone included.
\<close>

theorem padded_seed_breaks_uniqueness:
  "phonesDistinct [paddedSeed] \<and>
   \<not> phonesDistinct (contacts (run [Add 1000 clashForm] (initApp [paddedSeed]))) \<and>
   phonesDistinct [exampleAmy] \<and>
   \<not> phonesDistinct (contacts (run
        [Add 1000 exampleForm, Add 1000 exampleForm2, Update 1000 clashForm]
        (initApp [exampleAmy])))"
  by (simp add: phonesDistinct_def addContact_def addSubmit_def handleShowAddForm_def
      handleCloseAddForm_def handleAddContact_def showToast_def newContact_def
      updateContact_def editSubmit_def handleShowEditForm_def handleUpdateContact_def
      handleCloseEditForm_def updatedContact_def
      validateForm_def noErrors_def initApp_def paddedSeed_def clashForm_def exampleAmy_def
      exampleForm_def exampleForm2_def trim_def isWhiteSpace_def emailPattern.simps)

text \<open>
  Claim C1, amended. Start from a seed collection whose ids are pairwise distinct and whose
  stored phones are trimmed and pairwise distinct, and let the clock readings of the
  additions be pairwise distinct and differ from the seed ids. Then after every sequence of
  additions, updates, deletions, clicks on UNDO (which acts only while the delete
  notification offers it), favorite toggles, searches and timer expiries, no two contacts
  of the active collection have equal trimmed phones; their stored phones and their ids are
  pairwise distinct as well.
\<close>

theorem phones_stay_distinct:
  assumes "distinct (map cid seeds @ addTimes es)"
    and "list_all (\<lambda>c. trim (phone c) = phone c) seeds"
    and "distinct (map phone seeds)"
  shows "phonesDistinct (contacts (run es (initApp seeds))) \<and>
         distinct (map phone (contacts (run es (initApp seeds)))) \<and>
         distinct (map cid (contacts (run es (initApp seeds))))"
proof -
  have "sessionInv (cid ` set seeds) (initApp seeds)"
    using assms by (intro sessionInv_init) simp_all
  moreover have "distinct (addTimes es)" and "set (addTimes es) \<inter> cid ` set seeds = {}"
    using assms(1) by auto
  ultimately have inv: "sessionInv (cid ` set seeds \<union> set (addTimes es)) (run es (initApp seeds))"
    by (rule sessionInv_run)
  then show ?thesis
    using sessionInv_phonesDistinct [OF inv] by (simp add: sessionInv_def)
qed


theorem phones_stay_distinct_witness:
  "phonesDistinct (contacts (run
      [Delete 1, Add 1000 clashForm, Undo, TimerExpires, ToggleFavorite 2, Update 2 exampleForm2]
      (initApp [exampleBob, exampleAmy]))) \<and>
   map phone (contacts (run
      [Delete 1, Add 1000 clashForm, Undo, TimerExpires, ToggleFavorite 2, Update 2 exampleForm2]
      (initApp [exampleBob, exampleAmy]))) = [''555-0100'', ''555-0103'']"
proof -
  let ?es = "[Delete 1, Add 1000 clashForm, Undo, TimerExpires, ToggleFavorite 2,
              Update 2 exampleForm2]"
  have a: "distinct (map cid [exampleBob, exampleAmy] @ addTimes ?es)"
    by (simp add: exampleBob_def exampleAmy_def)
  have b: "list_all (\<lambda>c. trim (phone c) = phone c) [exampleBob, exampleAmy]"
    by (simp add: exampleBob_def exampleAmy_def trim_def isWhiteSpace_def)
  have c: "distinct (map phone [exampleBob, exampleAmy])"
    by (simp add: exampleBob_def exampleAmy_def)
  have d: "map phone (contacts (run ?es (initApp [exampleBob, exampleAmy])))
             = [''555-0100'', ''555-0103'']"
    by (simp add: addContact_def addSubmit_def handleShowAddForm_def
      handleCloseAddForm_def handleAddContact_def showToast_def newContact_def
      updateContact_def editSubmit_def handleShowEditForm_def handleUpdateContact_def
      handleCloseEditForm_def updatedContact_def requestDelete_def handleDeleteContact_def
      handleConfirmDelete_def undoClick_def undoAvailable_def handleUndoDelete_def
      fireTimer_def toastTimeout_def handleToggleFavorite_def
      validateForm_def noErrors_def initApp_def clashForm_def exampleBob_def exampleAmy_def
      exampleForm2_def trim_def isWhiteSpace_def orNull_def)
  from phones_stay_distinct [OF a b c] d show ?thesis by blast
qed

text \<open>
  The UNDO button matters for the invariant: \<open>handleUndoDelete\<close> itself checks nothing. After
  a deletion and an addition that reuses the deleted phone, the button is no longer offered;
  the handler, were it run at that point, would restore the record beside its duplicate.
\<close>

lemma undo_handler_unchecked:
  "\<not> undoAvailable (addContact 1000 clashForm (requestDelete 1 (initApp [exampleBob, exampleAmy])))
   \<and> map phone (contacts (handleUndoDelete
        (addContact 1000 clashForm (requestDelete 1 (initApp [exampleBob, exampleAmy])))))
     = [''555-0100'', ''555-0101'', ''555-0100'']"
  by (simp add: addContact_def addSubmit_def handleShowAddForm_def
      handleCloseAddForm_def handleAddContact_def showToast_def newContact_def
      requestDelete_def handleDeleteContact_def
      handleConfirmDelete_def undoAvailable_def handleUndoDelete_def
      validateForm_def noErrors_def initApp_def clashForm_def exampleBob_def exampleAmy_def
      trim_def isWhiteSpace_def orNull_def)

end
